theory Spec2Isabelle
  imports Complex_Main "HOL-Library.Sublist"
begin

section \<open>The typing game of \<^verbatim>\<open>TypingGame.tsx\<close>\<close>

text \<open>
  The component \<^verbatim>\<open>TypingGame\<close> keeps its session in React state variables and in three
  items of the browser's session storage.  Each handler of the component is modelled as a
  function from the state it sees to the state it leaves, together with the list of
  requests it issued.  The answers of the remote services, the clock and the random
  number generator are arguments of the handlers.  \<^verbatim>\<open>handleSubmit\<close> waits while the first
  set is analysed and before the second set is saved, and the page stays usable
  meanwhile: the handler is given in two forms, with the events that arrive during its
  waits (\<open>handleSubmitWaiting\<close>) and, as the case of no such event, without
  (\<open>handleSubmit\<close>).  The lengths of the delays do not appear.

  Strings are lists of \<^typ>\<open>char\<close>; \<^verbatim>\<open>toLowerCase\<close> and \<^verbatim>\<open>trim\<close> are modelled on
  ASCII letters and ASCII white space.  Numbers that the source computes in floating
  point (the accuracy) are modelled as real numbers.  The text of the feedback message
  (\<^verbatim>\<open>message\<close>) is display only and is not modelled.
\<close>

subsection \<open>Strings\<close>

definition lowerChar :: "char \<Rightarrow> char" where
  "lowerChar c =
     (let n = (of_char c :: nat) in if 65 \<le> n \<and> n \<le> 90 then char_of (n + 32) else c)"

definition toLowerCase :: "string \<Rightarrow> string" where
  "toLowerCase s = map lowerChar s"

definition isWhiteSpace :: "char \<Rightarrow> bool" where
  "isWhiteSpace c = ((of_char c :: nat) \<in> {9, 10, 11, 12, 13, 32})"

definition trim :: "string \<Rightarrow> string" where
  "trim s = rev (dropWhile isWhiteSpace (rev (dropWhile isWhiteSpace s)))"

text \<open>\<^verbatim>\<open>s[i]\<close>: the character at index \<open>i\<close>, or \<^verbatim>\<open>undefined\<close> (here \<open>None\<close>) past the end.\<close>

definition charAt :: "string \<Rightarrow> nat \<Rightarrow> char option" where
  "charAt s i = (if i < length s then Some (s ! i) else None)"

subsection \<open>Constants and data\<close>

definition TOTAL_WORDS :: nat where
  "TOTAL_WORDS = 5"

definition fallbackWords :: "string list" where
  "fallbackWords = [''cat'', ''dog'', ''sun'', ''tree'', ''book'']"

datatype phase = Initial | Analyzing | Targeted

datatype difficulty = Easy | Medium | Hard

text \<open>One element of \<^verbatim>\<open>results\<close>: the object \<^verbatim>\<open>entry\<close> built by \<^verbatim>\<open>handleSubmit\<close>.\<close>

record typing_entry =
  e_word :: string
  e_input :: string
  e_correct :: bool
  e_timeSpent :: int
  e_mistakes :: nat

subsection \<open>Scoring of one word\<close>

text \<open>
  The loop of \<^verbatim>\<open>handleSubmit\<close>:
  \<^verbatim>\<open>for (let i = 0; i < Math.max(userWord.length, targetWord.length); i++)
      if (userWord[i] !== targetWord[i]) wordMistakes++;\<close>
  with the loop counter \<open>i\<close>, the bound \<open>n\<close> and the running count as arguments.
\<close>

function mistakesLoop :: "string \<Rightarrow> string \<Rightarrow> nat \<Rightarrow> nat \<Rightarrow> nat \<Rightarrow> nat" where
  "mistakesLoop userWord targetWord n i wordMistakes =
     (if i < n
      then mistakesLoop userWord targetWord n (i + 1)
             (if charAt userWord i \<noteq> charAt targetWord i then wordMistakes + 1 else wordMistakes)
      else wordMistakes)"
  by pat_completeness auto
termination
  by (relation "measure (\<lambda>(u, t, n, i, m). n - i)") auto

declare mistakesLoop.simps [simp del]

definition countMistakes :: "string \<Rightarrow> string \<Rightarrow> nat" where
  "countMistakes userWord targetWord =
     mistakesLoop userWord targetWord (max (length userWord) (length targetWord)) 0 0"

definition userWordOf :: "string \<Rightarrow> string" where
  "userWordOf input = toLowerCase (trim input)"

definition targetWordOf :: "string \<Rightarrow> string" where
  "targetWordOf currentWord = toLowerCase currentWord"

text \<open>\<^verbatim>\<open>Math.max(0, Math.min(100, (1 - (wordMistakes / targetWord.length)) * 100))\<close>\<close>

definition newAccuracyOf :: "nat \<Rightarrow> string \<Rightarrow> real" where
  "newAccuracyOf wordMistakes targetWord =
     max 0 (min 100 ((1 - real wordMistakes / real (length targetWord)) * 100))"

text \<open>
  The count as the specification words it, for comparison with the loop above: both the
  target and the input are normalized (trimmed and lower-cased), and the positions below
  the longer of the two at which they differ are counted, a missing character being a
  difference.
\<close>

definition normalized :: "string \<Rightarrow> string" where
  "normalized s = toLowerCase (trim s)"

definition specMistakeCount :: "string \<Rightarrow> string \<Rightarrow> nat" where
  "specMistakeCount target inp =
     length (filter (\<lambda>i. charAt (normalized target) i \<noteq> charAt (normalized inp) i)
       [0 ..< max (length (normalized target)) (length (normalized inp))])"

definition mkEntry :: "string \<Rightarrow> string \<Rightarrow> int \<Rightarrow> int \<Rightarrow> typing_entry" where
  "mkEntry currentWord input startTime endTime =
     \<lparr> e_word = currentWord,
       e_input = userWordOf input,
       e_correct = (userWordOf input = targetWordOf currentWord),
       e_timeSpent = endTime - startTime,
       e_mistakes = countMistakes (userWordOf input) (targetWordOf currentWord) \<rparr>"

subsection \<open>State of the component and of the session storage\<close>

record child_data =
  username :: string
  therapistCode :: string
  sessionId :: string

record typing_analysis =
  problematicLetters :: "string list"
  confusionPatterns :: "(string \<times> string) list"

text \<open>The \<^verbatim>\<open>useState\<close> variables of \<^verbatim>\<open>TypingGame\<close>, except \<^verbatim>\<open>message\<close>.\<close>

record component =
  currentWord :: string
  input :: string
  results :: "typing_entry list"
  wordCount :: nat
  loading :: bool
  error :: "string option"
  difficulty :: difficulty
  accuracy :: real
  totalMistakes :: nat
  childData :: "child_data option"
  isGeneratingWord :: bool
  startTime :: "int option"
  phase :: phase
  analysis :: "typing_analysis option"
  savingOnClose :: bool

definition initialState :: component where
  "initialState =
     \<lparr> currentWord = [], input = [], results = [], wordCount = 0, loading = True,
       error = None, difficulty = Easy, accuracy = 100, totalMistakes = 0,
       childData = None, isGeneratingWord = False, startTime = None, phase = Initial,
       analysis = None, savingOnClose = False \<rparr>"

text \<open>
  The three items \<^verbatim>\<open>targetedWords_<id>\<close>, \<^verbatim>\<open>targetedWordIndex_<id>\<close> and
  \<^verbatim>\<open>firstSetResults_<id>\<close> of the session storage, keyed by the session id and holding
  the values that the JSON texts stand for.
\<close>

record session_storage =
  targetedWords :: "string \<rightharpoonup> string list"
  targetedWordIndex :: "string \<rightharpoonup> nat"
  firstSetResults :: "string \<rightharpoonup> typing_entry list"

definition emptyStorage :: session_storage where
  "emptyStorage =
     \<lparr> targetedWords = Map.empty, targetedWordIndex = Map.empty, firstSetResults = Map.empty \<rparr>"

subsection \<open>Requests and answers\<close>

text \<open>
  What an awaited \<^verbatim>\<open>fetch\<close> followed by \<^verbatim>\<open>.json()\<close> gives: an exception with its
  message, or a response with \<^verbatim>\<open>response.ok\<close>, the \<^verbatim>\<open>success\<close> flag of the body, the
  payload of the body and its \<^verbatim>\<open>error\<close> text (empty when absent).
\<close>

datatype 'a fetched = Threw string | Response bool bool 'a string

datatype request =
    PostGenerateInitialWord child_data
  | PostGenerateNextWord child_data "typing_entry list" phase
  | PostAnalyzeTypingResults child_data "typing_entry list"
  | PostGenerateTargetedWords child_data typing_analysis
  | PostSaveComplete child_data "typing_entry list" "typing_analysis option"
  | PostSaveOnClose child_data "typing_entry list"
  | NavigateTo string
  | ScheduleNextWord

text \<open>
  \<^verbatim>\<open>PostSaveComplete\<close> is the request of \<^verbatim>\<open>saveResults\<close> (its body carries
  \<^verbatim>\<open>isComplete: true\<close>); \<^verbatim>\<open>PostSaveOnClose\<close> is the request of the close button, to
  the same address with \<^verbatim>\<open>results\<close> only.  \<^verbatim>\<open>ScheduleNextWord\<close> is
  \<^verbatim>\<open>setTimeout(() => generateNextWord(), 1600)\<close>.
\<close>

record submit_env =
  endTime :: int
  analysisResp :: "typing_analysis fetched"
  targetedResp :: "string list fetched"
  saveResp :: "typing_analysis option fetched"
  displayTime :: int

record word_env =
  wordResp :: "string fetched"
  random :: real
  shownTime :: int

text \<open>\<^verbatim>\<open>a || b\<close> on strings.\<close>

definition orElse :: "string \<Rightarrow> string \<Rightarrow> string" where
  "orElse a b = (if a = [] then b else a)"

text \<open>\<^verbatim>\<open>xs[i]\<close> on an array of words; \<^verbatim>\<open>undefined\<close> is the empty word here (both are falsy).\<close>

definition wordAt :: "string list \<Rightarrow> nat \<Rightarrow> string" where
  "wordAt ws i = (if i < length ws then ws ! i else [])"

subsection \<open>The handlers\<close>

definition fetchFailureMessage :: "'a fetched \<Rightarrow> string" where
  "fetchFailureMessage r =
     (case r of
        Threw m \<Rightarrow> orElse m ''Network error''
      | Response ok success w e \<Rightarrow> orElse (orElse e ''Failed to generate word'') ''Network error'')"

definition generateInitialWord ::
  "child_data \<Rightarrow> component \<Rightarrow> string fetched \<Rightarrow> component \<times> request list" where
  "generateInitialWord data s resp =
     (let s1 = s\<lparr>loading := True, error := None\<rparr>
      in case resp of
           Response True True w e \<Rightarrow>
             (s1\<lparr>currentWord := w, loading := False\<rparr>, [PostGenerateInitialWord data])
         | _ \<Rightarrow>
             (s1\<lparr>error := Some (fetchFailureMessage resp), loading := False\<rparr>,
              [PostGenerateInitialWord data]))"

text \<open>
  The effect run when the component is mounted.  \<open>stored\<close> is the parsed
  \<^verbatim>\<open>childData\<close> item with its \<^verbatim>\<open>preferredGame\<close>, or \<open>None\<close> when the item is missing
  or is not JSON.
\<close>

definition mount ::
  "(child_data \<times> string) option \<Rightarrow> component \<Rightarrow> string fetched \<Rightarrow> component \<times> request list" where
  "mount stored s resp =
     (case stored of
        None \<Rightarrow> (s, [NavigateTo ''/child-login''])
      | Some (parsed, preferredGame) \<Rightarrow>
          let s1 = s\<lparr>childData := Some parsed\<rparr>
          in if preferredGame \<noteq> ''typing'' then (s1, [NavigateTo ''/landing''])
             else generateInitialWord parsed s1 resp)"

text \<open>
  \<^verbatim>\<open>generateNextWord\<close>.  The function is called from a timer set by \<^verbatim>\<open>handleSubmit\<close>,
  so \<^verbatim>\<open>childData\<close>, \<^verbatim>\<open>results\<close>, \<^verbatim>\<open>difficulty\<close> and \<^verbatim>\<open>phase\<close> are those of the
  render \<open>cl\<close> that created the handler, while the setters act on the current state \<open>s\<close>.
\<close>

definition liveFetch ::
  "component \<Rightarrow> child_data \<Rightarrow> component \<Rightarrow> session_storage \<Rightarrow> word_env \<Rightarrow>
     component \<times> session_storage \<times> request list" where
  "liveFetch cl cd s st env =
     (let req = PostGenerateNextWord cd (results cl) (phase cl)
      in case wordResp env of
           Response True True w e \<Rightarrow>
             (s\<lparr>currentWord := w, isGeneratingWord := False\<rparr>, st, [req])
         | _ \<Rightarrow>
             (s\<lparr>error := Some (fetchFailureMessage (wordResp env)), isGeneratingWord := False,
                 currentWord := wordAt fallbackWords (nat \<lfloor>random env * real (length fallbackWords)\<rfloor>)\<rparr>,
              st, [req]))"

definition accuracyOfResults :: "typing_entry list \<Rightarrow> real" where
  "accuracyOfResults rs =
     (if length rs > 0 then real (length (filter e_correct rs)) / real (length rs) * 100 else 100)"

definition adjustDifficulty :: "real \<Rightarrow> difficulty \<Rightarrow> component \<Rightarrow> component" where
  "adjustDifficulty acc d s =
     (if acc \<ge> 90 \<and> d \<noteq> Hard then s\<lparr>difficulty := Hard\<rparr>
      else if acc \<ge> 70 \<and> acc < 90 \<and> d \<noteq> Medium then s\<lparr>difficulty := Medium\<rparr>
      else if acc < 70 \<and> d \<noteq> Easy then s\<lparr>difficulty := Easy\<rparr>
      else s)"

definition generateNextWord ::
  "component \<Rightarrow> component \<Rightarrow> session_storage \<Rightarrow> word_env \<Rightarrow>
     component \<times> session_storage \<times> request list" where
  "generateNextWord cl s st env =
     (case childData cl of
        None \<Rightarrow> (s, st, [])
      | Some cd \<Rightarrow>
          let s1 = s\<lparr>isGeneratingWord := True, error := None, currentWord := []\<rparr>;
              acc = accuracyOfResults (results cl);
              s2 = adjustDifficulty acc (difficulty cl) (s1\<lparr>accuracy := acc\<rparr>)
          in case targetedWords st (sessionId cd) of
               None \<Rightarrow> liveFetch cl cd s2 st env
             | Some tw \<Rightarrow>
                 if phase cl = Targeted then
                   let currentIndex =
                         (case targetedWordIndex st (sessionId cd) of None \<Rightarrow> 0 | Some i \<Rightarrow> i)
                   in if currentIndex < length tw then
                        (s2\<lparr>currentWord := tw ! currentIndex, isGeneratingWord := False,
                            startTime := Some (shownTime env)\<rparr>,
                         st\<lparr>targetedWordIndex :=
                              (targetedWordIndex st)(sessionId cd \<mapsto> currentIndex + 1)\<rparr>,
                         [])
                      else liveFetch cl cd s2 st env
                 else liveFetch cl cd s2 st env)"

text \<open>\<^verbatim>\<open>saveResults\<close>; \<^verbatim>\<open>childData\<close> and \<^verbatim>\<open>analysis\<close> are those of the render \<open>cl\<close>.\<close>

definition saveResults ::
  "component \<Rightarrow> component \<Rightarrow> typing_entry list \<Rightarrow> typing_analysis option fetched \<Rightarrow>
     component \<times> request list" where
  "saveResults cl s finalResults resp =
     (case childData cl of
        None \<Rightarrow> (s, [])
      | Some cd \<Rightarrow>
          let s1 = s\<lparr>loading := True\<rparr>;
              req = PostSaveComplete cd finalResults (analysis cl)
          in case resp of
               Threw m \<Rightarrow> (s1\<lparr>loading := False\<rparr>, [req])
             | Response ok success finalAnalysis e \<Rightarrow>
                 if ok then
                   ((case finalAnalysis of None \<Rightarrow> s1 | Some a \<Rightarrow> s1\<lparr>analysis := Some a\<rparr>),
                    [req, NavigateTo ''/landing''])
                 else (s1\<lparr>loading := False\<rparr>, [req]))"

text \<open>
  The branch of \<^verbatim>\<open>handleSubmit\<close> taken when the first set is complete.  It sets the
  phase and then waits: 2000 ms, the analysis request, the targeted-words request and
  1500 ms.  \<open>resumeAnalysis\<close> is what the branch does with the answers, on the state and
  the storage that it finds after the waits: the setters act on that state, and the first
  set is stored by \<^verbatim>\<open>setResults(prevResults => ...)\<close>, that is from the results of that
  moment.  The request for analysis carries \<^verbatim>\<open>newResults\<close>, fixed when the handler
  started.
\<close>

definition analysisFailedMessage :: string where
  "analysisFailedMessage = ''Failed to analyze results and generate targeted words''"

definition resumeAnalysis ::
  "component \<Rightarrow> session_storage \<Rightarrow> child_data \<Rightarrow> typing_entry list \<Rightarrow> submit_env \<Rightarrow>
     component \<times> session_storage \<times> request list" where
  "resumeAnalysis s st cd newResults env =
     (let reqA = PostAnalyzeTypingResults cd newResults
      in case analysisResp env of
           Threw m \<Rightarrow> (s\<lparr>error := Some analysisFailedMessage\<rparr>, st, [reqA])
         | Response ok success a e \<Rightarrow>
             if \<not> success then (s, st, [reqA])
             else
               let s2 = s\<lparr>analysis := Some a\<rparr>;
                   reqT = PostGenerateTargetedWords cd a
               in case targetedResp env of
                    Threw m \<Rightarrow> (s2\<lparr>error := Some analysisFailedMessage\<rparr>, st, [reqA, reqT])
                  | Response ok' success' ws e' \<Rightarrow>
                      if \<not> success' then (s2, st, [reqA, reqT])
                      else
                        (s2\<lparr>results := [], wordCount := 0, phase := Targeted,
                            isGeneratingWord := False, currentWord := wordAt ws 0,
                            startTime := Some (displayTime env)\<rparr>,
                         st\<lparr>targetedWords := (targetedWords st)(sessionId cd \<mapsto> ws),
                            targetedWordIndex := (targetedWordIndex st)(sessionId cd \<mapsto> 0),
                            firstSetResults := (firstSetResults st)(sessionId cd \<mapsto> results s2)\<rparr>,
                         [reqA, reqT]))"

text \<open>The branch when no event arrives during its waits.\<close>

definition analyzeBranch ::
  "component \<Rightarrow> session_storage \<Rightarrow> child_data \<Rightarrow> typing_entry list \<Rightarrow> submit_env \<Rightarrow>
     component \<times> session_storage \<times> request list" where
  "analyzeBranch s st cd newResults env =
     resumeAnalysis (s\<lparr>phase := Analyzing\<rparr>) st cd newResults env"

text \<open>
  The branch of \<^verbatim>\<open>handleSubmit\<close> taken when the second set is complete, after its wait
  of 2000 ms: \<open>cl\<close> is the render of the handler, \<open>s\<close> and \<open>st\<close> are the state and the
  storage found after the wait.
\<close>

definition finishBranch ::
  "component \<Rightarrow> component \<Rightarrow> session_storage \<Rightarrow> child_data \<Rightarrow> typing_entry list \<Rightarrow>
     submit_env \<Rightarrow> component \<times> session_storage \<times> request list" where
  "finishBranch cl s st cd newResults env =
     (let firstSetResults' =
            (case firstSetResults st (sessionId cd) of None \<Rightarrow> [] | Some rs \<Rightarrow> rs);
          allResults = firstSetResults' @ newResults;
          saved = saveResults cl s allResults (saveResp env)
      in (fst saved,
          st\<lparr>targetedWords := (targetedWords st)(sessionId cd := None),
             targetedWordIndex := (targetedWordIndex st)(sessionId cd := None),
             firstSetResults := (firstSetResults st)(sessionId cd := None)\<rparr>,
          snd saved))"

text \<open>\<^verbatim>\<open>handleSubmit\<close>, when no event arrives during the waits of its branches.\<close>

definition handleSubmit ::
  "component \<Rightarrow> session_storage \<Rightarrow> submit_env \<Rightarrow>
     component \<times> session_storage \<times> request list" where
  "handleSubmit s st env =
     (case startTime s of
        None \<Rightarrow> (s, st, [])
      | Some t0 \<Rightarrow>
          if currentWord s = [] \<or> trim (input s) = [] \<or> t0 = 0 then (s, st, [])
          else
            let entry = mkEntry (currentWord s) (input s) t0 (endTime env);
                newAccuracy = newAccuracyOf (e_mistakes entry) (targetWordOf (currentWord s));
                newResults = results s @ [entry];
                s1 = s\<lparr>totalMistakes := totalMistakes s + e_mistakes entry,
                       accuracy := (accuracy s + newAccuracy) / 2,
                       results := newResults, input := [], wordCount := wordCount s + 1\<rparr>
            in if wordCount s + 1 \<ge> TOTAL_WORDS then
                 (case childData s of
                    None \<Rightarrow> (s1, st, [])
                  | Some cd \<Rightarrow>
                      (case phase s of
                         Initial \<Rightarrow> analyzeBranch s1 st cd newResults env
                       | Targeted \<Rightarrow> finishBranch s s1 st cd newResults env
                       | Analyzing \<Rightarrow> (s1, st, [])))
               else (s1, st, [ScheduleNextWord]))"

text \<open>
  The close button.  \<^verbatim>\<open>closeClick\<close> is the handler up to its \<^verbatim>\<open>await\<close>;
  \<^verbatim>\<open>closeFinally\<close> is its \<^verbatim>\<open>finally\<close> block, run at once when nothing is awaited and
  otherwise when the request has settled (\<^verbatim>\<open>closeSettled\<close>).
\<close>

definition closeFinally :: "component \<Rightarrow> component \<times> request list" where
  "closeFinally s = (s\<lparr>savingOnClose := False\<rparr>, [NavigateTo ''/landing''])"

definition closeClick :: "component \<Rightarrow> component \<times> request list" where
  "closeClick s =
     (if savingOnClose s then (s, [])
      else
        let s1 = s\<lparr>savingOnClose := True\<rparr>
        in case childData s of
             None \<Rightarrow> closeFinally s1
           | Some cd \<Rightarrow>
               if length (results s) > 0 then (s1, [PostSaveOnClose cd (results s)])
               else closeFinally s1)"

definition closeSettled :: "component \<Rightarrow> component \<times> request list" where
  "closeSettled s = closeFinally s"

subsection \<open>What the page lets the user do\<close>

text \<open>
  The guard at the head of \<^verbatim>\<open>handleSubmit\<close>:
  \<^verbatim>\<open>if (!currentWord || input.trim() === '' || !startTime) return;\<close>
\<close>

definition accepts :: "component \<Rightarrow> bool" where
  "accepts s =
     (currentWord s \<noteq> [] \<and> trim (input s) \<noteq> [] \<and>
      (case startTime s of None \<Rightarrow> False | Some t0 \<Rightarrow> t0 \<noteq> 0))"

text \<open>
  The form is rendered only when \<^verbatim>\<open>childData\<close> is set and no word is being generated;
  its text field is disabled while \<^verbatim>\<open>loading\<close>, and its button also while the trimmed
  input is empty.
\<close>

definition typeText :: "component \<Rightarrow> string \<Rightarrow> component" where
  "typeText s txt =
     (if childData s = None \<or> loading s \<or> isGeneratingWord s then s else s\<lparr>input := txt\<rparr>)"

definition formSubmit ::
  "component \<Rightarrow> session_storage \<Rightarrow> submit_env \<Rightarrow>
     component \<times> session_storage \<times> request list" where
  "formSubmit s st env =
     (if childData s = None \<or> loading s \<or> isGeneratingWord s \<or> trim (input s) = []
      then (s, st, [])
      else handleSubmit s st env)"

datatype event =
    Typed string
  | Submitted submit_env
  | NextWordTimer component word_env
  | CloseClicked
  | CloseSettled

fun step :: "component \<times> session_storage \<Rightarrow> event \<Rightarrow> component \<times> session_storage" where
  "step (s, st) (Typed txt) = (typeText s txt, st)"
| "step (s, st) (Submitted env) = (fst (formSubmit s st env), fst (snd (formSubmit s st env)))"
| "step (s, st) (NextWordTimer cl env) =
     (fst (generateNextWord cl s st env), fst (snd (generateNextWord cl s st env)))"
| "step (s, st) CloseClicked = (fst (closeClick s), st)"
| "step (s, st) CloseSettled = (fst (closeSettled s), st)"

definition run ::
  "component \<times> session_storage \<Rightarrow> event list \<Rightarrow> component \<times> session_storage" where
  "run c evs = foldl step c evs"

text \<open>
  One turn of the game: the user types a text and submits it; when \<^verbatim>\<open>handleSubmit\<close> has
  set the timer for the next word, \<^verbatim>\<open>generateNextWord\<close> of the same render runs.
\<close>

fun turn ::
  "component \<times> session_storage \<Rightarrow> string \<times> submit_env \<times> word_env \<Rightarrow>
     component \<times> session_storage" where
  "turn (s, st) (txt, senv, wenv) =
     (let s0 = typeText s txt;
          r = formSubmit s0 st senv
      in if ScheduleNextWord \<in> set (snd (snd r))
         then (fst (generateNextWord s0 (fst r) (fst (snd r)) wenv),
               fst (snd (generateNextWord s0 (fst r) (fst (snd r)) wenv)))
         else (fst r, fst (snd r)))"

definition turns ::
  "component \<times> session_storage \<Rightarrow> (string \<times> submit_env \<times> word_env) list \<Rightarrow>
     component \<times> session_storage" where
  "turns c ts = foldl turn c ts"

text \<open>The word request of a turn failed: an exception, or an answer that is not a success.\<close>

definition wordFetchFailed :: "word_env \<Rightarrow> bool" where
  "wordFetchFailed env =
     (case wordResp env of Threw m \<Rightarrow> True | Response ok success w e \<Rightarrow> \<not> (ok \<and> success))"

text \<open>The analysis request or the targeted-words request of a submission failed.\<close>

definition analysisFailed :: "submit_env \<Rightarrow> bool" where
  "analysisFailed env =
     (case analysisResp env of
        Threw m \<Rightarrow> True
      | Response ok success a e \<Rightarrow>
          \<not> success \<or>
          (case targetedResp env of Threw m' \<Rightarrow> True | Response ok' success' ws e' \<Rightarrow> \<not> success'))"

text \<open>While the first set runs, \<^verbatim>\<open>wordCount\<close> counts its results and is below the total.\<close>

definition countsFirstSet :: "component \<Rightarrow> bool" where
  "countsFirstSet s =
     (phase s = Initial \<longrightarrow> wordCount s = length (results s) \<and> wordCount s < TOTAL_WORDS)"


text \<open>The result lists sent for analysis among the requests issued.\<close>

fun analyzedResults :: "request list \<Rightarrow> typing_entry list list" where
  "analyzedResults [] = []"
| "analyzedResults (PostAnalyzeTypingResults cd rs # q) = rs # analyzedResults q"
| "analyzedResults (r # q) = analyzedResults q"

text \<open>
  The state that the synchronous setters of an accepted \<^verbatim>\<open>handleSubmit\<close> leave, before
  the handler looks at the number of words.
\<close>

definition scored :: "component \<Rightarrow> submit_env \<Rightarrow> component" where
  "scored s env =
     (case startTime s of
        None \<Rightarrow> s
      | Some t0 \<Rightarrow>
          let entry = mkEntry (currentWord s) (input s) t0 (endTime env)
          in s\<lparr>totalMistakes := totalMistakes s + e_mistakes entry,
               accuracy :=
                 (accuracy s + newAccuracyOf (e_mistakes entry) (targetWordOf (currentWord s))) / 2,
               results := results s @ [entry], input := [], wordCount := wordCount s + 1\<rparr>)"

text \<open>
  \<^verbatim>\<open>handleSubmit\<close> with the events \<open>evs\<close> that arrive while its branch waits.  The
  synchronous part runs first; the events act on the state it leaves; then the branch
  resumes on the state and the storage that the events leave.  A branch that does not
  wait takes no event.
\<close>

definition handleSubmitWaiting ::
  "component \<Rightarrow> session_storage \<Rightarrow> submit_env \<Rightarrow> event list \<Rightarrow>
     component \<times> session_storage \<times> request list" where
  "handleSubmitWaiting s st env evs =
     (if \<not> accepts s then (s, st, [])
      else if wordCount s + 1 \<ge> TOTAL_WORDS then
        (case childData s of
           None \<Rightarrow> (scored s env, st, [])
         | Some cd \<Rightarrow>
             (case phase s of
                Initial \<Rightarrow>
                  resumeAnalysis
                    (fst (run ((scored s env)\<lparr>phase := Analyzing\<rparr>, st) evs))
                    (snd (run ((scored s env)\<lparr>phase := Analyzing\<rparr>, st) evs))
                    cd (results (scored s env)) env
              | Targeted \<Rightarrow>
                  finishBranch s
                    (fst (run (scored s env, st) evs)) (snd (run (scored s env, st) evs))
                    cd (results (scored s env)) env
              | Analyzing \<Rightarrow> (scored s env, st, [])))
      else (scored s env, st, [ScheduleNextWord]))"

text \<open>One of the two requests threw, so that the \<^verbatim>\<open>catch\<close> block of the analysis ran.\<close>

definition analysisThrew :: "submit_env \<Rightarrow> bool" where
  "analysisThrew env =
     (case analysisResp env of
        Threw m \<Rightarrow> True
      | Response ok success a e \<Rightarrow>
          success \<and>
          (case targetedResp env of Threw m' \<Rightarrow> True | Response ok' success' ws e' \<Rightarrow> False))"

text \<open>
  A page of the first set that shows a word with the timer running, after \<open>k\<close> words.
\<close>

definition ready :: "nat \<Rightarrow> component \<Rightarrow> bool" where
  "ready k s =
     (phase s = Initial \<and> childData s \<noteq> None \<and> \<not> loading s \<and> \<not> isGeneratingWord s \<and>
      currentWord s \<noteq> [] \<and> (case startTime s of None \<Rightarrow> False | Some t0 \<Rightarrow> t0 \<noteq> 0) \<and>
      wordCount s = k)"

text \<open>
  A turn whose typed text is not blank and whose word request fails; \<^verbatim>\<open>Math.random()\<close>
  is in \<open>[0, 1)\<close>.
\<close>

definition failingTurn :: "string \<times> submit_env \<times> word_env \<Rightarrow> bool" where
  "failingTurn t =
     (case t of (tx, senv, wenv) \<Rightarrow>
        trim tx \<noteq> [] \<and> wordFetchFailed wenv \<and> 0 \<le> random wenv \<and> random wenv < 1)"

subsection \<open>Example sessions\<close>

text \<open>
  The pages of the first set below have a running timer (\<^verbatim>\<open>startTime\<close> is set), so that
  \<^verbatim>\<open>handleSubmit\<close> accepts a submission on them.  No handler starts the timer during the
  first set (see the section on the timer of a word): these pages show what the handlers
  do on such a state, not a state that a session reaches from \<open>initialState\<close>.
\<close>

definition demoChild :: child_data where
  "demoChild = \<lparr> username = ''ann'', therapistCode = ''T1'', sessionId = ''s1'' \<rparr>"

definition demoAnalysis :: typing_analysis where
  "demoAnalysis = \<lparr> problematicLetters = [''u''], confusionPatterns = [(''u'', ''o'')] \<rparr>"

definition demoFour :: "typing_entry list" where
  "demoFour =
     [mkEntry ''cat'' ''cat'' 1000 2000, mkEntry ''dog'' ''dog'' 1000 2100,
      mkEntry ''sun'' ''son'' 1000 2200, mkEntry ''tree'' ''tree'' 1000 2300]"

definition demoFive :: "typing_entry list" where
  "demoFive = demoFour @ [mkEntry ''book'' ''book'' 1000 2500]"

text \<open>A page of the first set showing its first word, with the timer running.\<close>

definition demoFirst :: component where
  "demoFirst =
     initialState\<lparr>currentWord := ''cat'', loading := False, childData := Some demoChild,
       startTime := Some 1000\<rparr>"

text \<open>A page of the first set showing its fifth word, which the user has typed.\<close>

definition demoFifth :: component where
  "demoFifth =
     demoFirst\<lparr>currentWord := ''book'', input := ''book'', results := demoFour, wordCount := 4\<rparr>"

text \<open>A page of the first set after three words.\<close>

definition demoFourth :: component where
  "demoFourth =
     demoFirst\<lparr>currentWord := ''tree'', results := take 3 demoFour, wordCount := 3\<rparr>"


definition demoTargetedSecond :: component where
  "demoTargetedSecond =
     demoFirst\<lparr>currentWord := ''bug'', phase := Targeted,
       results := [mkEntry ''bun'' ''bon'' 1000 2000], wordCount := 1,
       analysis := Some demoAnalysis\<rparr>"

text \<open>The storage during the second set, with a queue of one word that has been used.\<close>

definition demoStorage :: session_storage where
  "demoStorage =
     \<lparr> targetedWords = [''s1'' \<mapsto> [''bun'']], targetedWordIndex = [''s1'' \<mapsto> 1],
       firstSetResults = [''s1'' \<mapsto> demoFive] \<rparr>"

definition demoOffline :: submit_env where
  "demoOffline =
     \<lparr> endTime = 2500, analysisResp = Threw ''offline'', targetedResp = Threw ''offline'',
       saveResp = Threw ''offline'', displayTime = 9000 \<rparr>"

definition demoOnline :: submit_env where
  "demoOnline =
     \<lparr> endTime = 2500, analysisResp = Response True True demoAnalysis [],
       targetedResp = Response True True [''bun'', ''bug'', ''bus'', ''but'', ''bud''] [],
       saveResp = Response True True None [], displayTime = 9000 \<rparr>"

definition demoWord :: word_env where
  "demoWord = \<lparr> wordResp = Response True True ''dog'' [], random = 3 / 10, shownTime = 5000 \<rparr>"

definition demoNoWord :: word_env where
  "demoNoWord = \<lparr> wordResp = Threw ''offline'', random = 3 / 10, shownTime = 5000 \<rparr>"

section \<open>Properties\<close>

subsection \<open>Scoring\<close>

lemma mistakesLoop_card:
  "i \<le> n \<Longrightarrow>
   mistakesLoop u t n i m = m + card {j. i \<le> j \<and> j < n \<and> charAt u j \<noteq> charAt t j}"
proof (induction u t n i m rule: mistakesLoop.induct)
  case (1 u t n i m)
  show ?case
  proof (cases "i < n")
    case True
    let ?rest = "{j. i + 1 \<le> j \<and> j < n \<and> charAt u j \<noteq> charAt t j}"
    have parts: "{j. i \<le> j \<and> j < n \<and> charAt u j \<noteq> charAt t j} =
        (if charAt u i \<noteq> charAt t i then {i} else {}) \<union> ?rest"
      using True by (auto simp: le_less Suc_le_eq)
    have fin: "finite ?rest" and fresh: "i \<notin> ?rest"
      by simp_all
    from True have "i + 1 \<le> n"
      by simp
    from "1.IH" [OF True this] show ?thesis
      using True fin fresh
      by (subst mistakesLoop.simps, subst parts) (simp del: One_nat_def)
  next
    case False
    with "1.prems" have "i = n"
      by simp
    then show ?thesis
      by (subst mistakesLoop.simps) simp
  qed
qed

lemma countMistakes_card:
  "countMistakes u t = card {i. i < max (length u) (length t) \<and> charAt u i \<noteq> charAt t i}"
  by (simp add: countMistakes_def mistakesLoop_card)

lemma countMistakes_same_length:
  assumes "length u = length t"
  shows "countMistakes u t = card {i. i < length t \<and> u ! i \<noteq> t ! i}"
proof -
  have "{i. i < max (length u) (length t) \<and> charAt u i \<noteq> charAt t i} =
        {i. i < length t \<and> u ! i \<noteq> t ! i}"
    using assms by (auto simp: charAt_def)
  then show ?thesis
    by (simp add: countMistakes_card)
qed

lemma length_filter_upt_card: "length (filter P [0 ..< n]) = card {i. i < n \<and> P i}"
proof -
  have "length (filter P [0 ..< n]) = card ({i. P i} \<inter> set [0 ..< n])"
    by (simp add: distinct_length_filter)
  also have "{i. P i} \<inter> set [0 ..< n] = {i. i < n \<and> P i}"
    by auto
  finally show ?thesis .
qed

lemma specMistakeCount_untrimmed_word:
  assumes "trim w = w"
  shows "specMistakeCount w inp = countMistakes (userWordOf inp) (targetWordOf w)"
proof -
  have n: "normalized w = targetWordOf w" "normalized inp = userWordOf inp"
    using assms by (simp_all add: normalized_def targetWordOf_def userWordOf_def)
  have "{i. i < max (length (targetWordOf w)) (length (userWordOf inp)) \<and>
            charAt (targetWordOf w) i \<noteq> charAt (userWordOf inp) i} =
        {i. i < max (length (userWordOf inp)) (length (targetWordOf w)) \<and>
            charAt (userWordOf inp) i \<noteq> charAt (targetWordOf w) i}"
    by (auto simp: max.commute)
  then show ?thesis
    by (simp add: specMistakeCount_def n length_filter_upt_card countMistakes_card)
qed

text \<open>
  C3, as the code has it.  The number of mistakes recorded for a word is the number of
  positions below the longer of the two compared strings at which their characters
  differ, a position past the end of one string counting as a difference; the compared
  strings are the trimmed, lower-cased input and the lower-cased word, which is not
  trimmed.  When the word has no white space around it, this is the count over the
  normalized strings; and when the trimmed input and the word have equal length, it is
  the number of positions at which they differ up to case.
\<close>

theorem mistakes_count_differing_positions:
  "e_mistakes (mkEntry w inp t0 t1) =
     card {i. i < max (length (userWordOf inp)) (length (targetWordOf w)) \<and>
              charAt (userWordOf inp) i \<noteq> charAt (targetWordOf w) i}
   \<and> (trim w = w \<longrightarrow> e_mistakes (mkEntry w inp t0 t1) = specMistakeCount w inp)
   \<and> (length (trim inp) = length w \<longrightarrow>
        e_mistakes (mkEntry w inp t0 t1) =
          card {i. i < length w \<and>
                   lowerChar (trim inp ! i) \<noteq> lowerChar (w ! i)})"
proof (intro conjI impI)
  show "e_mistakes (mkEntry w inp t0 t1) =
     card {i. i < max (length (userWordOf inp)) (length (targetWordOf w)) \<and>
              charAt (userWordOf inp) i \<noteq> charAt (targetWordOf w) i}"
    by (simp add: mkEntry_def countMistakes_card)
next
  assume "trim w = w"
  then show "e_mistakes (mkEntry w inp t0 t1) = specMistakeCount w inp"
    by (simp add: mkEntry_def specMistakeCount_untrimmed_word)
next
  assume len: "length (trim inp) = length w"
  then have "length (userWordOf inp) = length (targetWordOf w)"
    by (simp add: userWordOf_def targetWordOf_def toLowerCase_def)
  then have "countMistakes (userWordOf inp) (targetWordOf w) =
      card {i. i < length (targetWordOf w) \<and>
               userWordOf inp ! i \<noteq> targetWordOf w ! i}"
    by (rule countMistakes_same_length)
  also have "{i. i < length (targetWordOf w) \<and>
               userWordOf inp ! i \<noteq> targetWordOf w ! i} =
      {i. i < length w \<and> lowerChar (trim inp ! i) \<noteq> lowerChar (w ! i)}"
    using len by (auto simp: userWordOf_def targetWordOf_def toLowerCase_def)
  finally show "e_mistakes (mkEntry w inp t0 t1) =
      card {i. i < length w \<and>
               lowerChar (trim inp ! i) \<noteq> lowerChar (w ! i)}"
    by (simp add: mkEntry_def)
qed

theorem mistakes_count_differing_positions_witness:
  "trim ''book'' = ''book'' \<and> length (trim '' Boko '') = length ''book'' \<and>
   e_mistakes (mkEntry ''book'' '' Boko '' 1000 2500) = 2 \<and>
   specMistakeCount ''book'' '' Boko '' = 2 \<and>
   card {i. i < length ''book'' \<and>
            lowerChar (trim '' Boko '' ! i) \<noteq> lowerChar (''book'' ! i)} = 2"
proof -
  have tr: "trim ''book'' = ''book''"
    by code_simp
  have len: "length (trim '' Boko '') = length ''book''"
    by code_simp
  have val: "e_mistakes (mkEntry ''book'' '' Boko '' 1000 2500) = 2"
    by code_simp
  from mistakes_count_differing_positions [of "''book''" "'' Boko ''" 1000 2500] tr len val
  show ?thesis
    by simp
qed

text \<open>
  C3 as stated fails: with the word \<open>'' cat''\<close> (a leading blank) and the input
  \<open>''cat''\<close> the normalized strings are equal, so that no position differs, yet four
  mistakes are recorded.
\<close>

theorem mistakes_on_untrimmed_word_counterexample:
  "e_mistakes (mkEntry '' cat'' ''cat'' 1000 2000) = 4 \<and>
   specMistakeCount '' cat'' ''cat'' = 0"
  by code_simp

lemma trim_padding:
  assumes pre: "list_all isWhiteSpace pre" and post: "list_all isWhiteSpace post"
  shows "trim (pre @ inp @ post) = trim inp"
proof -
  have front: "dropWhile isWhiteSpace (pre @ inp @ post) = dropWhile isWhiteSpace (inp @ post)"
    by (rule dropWhile_append2) (use pre in \<open>auto simp: list_all_iff\<close>)
  show ?thesis
  proof (cases "\<forall>c \<in> set inp. isWhiteSpace c")
    case True
    then have a: "dropWhile isWhiteSpace (inp @ post) = []"
      and b: "dropWhile isWhiteSpace inp = []"
      using post by (auto simp: list_all_iff)
    show ?thesis
      unfolding trim_def front a b by simp
  next
    case False
    then obtain c where c: "c \<in> set inp" "\<not> isWhiteSpace c"
      by blast
    then have a: "dropWhile isWhiteSpace (inp @ post) = dropWhile isWhiteSpace inp @ post"
      by (simp add: dropWhile_append1)
    have b: "dropWhile isWhiteSpace (rev post @ rev (dropWhile isWhiteSpace inp)) =
        dropWhile isWhiteSpace (rev (dropWhile isWhiteSpace inp))"
      by (rule dropWhile_append2) (use post in \<open>auto simp: list_all_iff\<close>)
    show ?thesis
      unfolding trim_def front a rev_append b by simp
  qed
qed

text \<open>
  C4, as the code has it.  The input is trimmed and lower-cased, the word is lower-cased
  only (it is never trimmed); the attempt is correct exactly when the two results are
  equal.  So the flag does not depend on white space around the input, nor on case.
\<close>

theorem correct_compares_trimmed_input_with_word:
  "e_correct (mkEntry w inp t0 t1) = (toLowerCase (trim inp) = toLowerCase w) \<and>
   (list_all isWhiteSpace pre \<and> list_all isWhiteSpace post \<longrightarrow>
      e_correct (mkEntry w (pre @ inp @ post) t0 t1) = e_correct (mkEntry w inp t0 t1))"
  by (simp add: mkEntry_def userWordOf_def targetWordOf_def trim_padding)

theorem correct_compares_trimmed_input_with_word_witness:
  "list_all isWhiteSpace ''  '' \<and> list_all isWhiteSpace '' '' \<and>
   e_correct (mkEntry ''Cat'' (''  '' @ ''cAT'' @ '' '') 1000 2000) \<and>
   e_correct (mkEntry ''Cat'' ''cAT'' 1000 2000)"
proof -
  have ws: "list_all isWhiteSpace ''  ''" "list_all isWhiteSpace '' ''"
    by (simp_all add: isWhiteSpace_def)
  have val: "e_correct (mkEntry ''Cat'' ''cAT'' 1000 2000)"
    by code_simp
  from correct_compares_trimmed_input_with_word
         [of "''Cat''" "''cAT''" 1000 2000 "''  ''" "'' ''"] ws val
  show ?thesis
    by simp
qed

text \<open>
  C4 as stated fails: with the word \<open>'' cat''\<close> (a leading blank) and the input
  \<open>''cat''\<close>, the trimmed and lower-cased strings are equal, yet the attempt is not correct.
\<close>

theorem word_is_not_trimmed_counterexample:
  "e_correct (mkEntry '' cat'' ''cat'' 1000 2000) \<noteq>
     (toLowerCase (trim '' cat'') = toLowerCase (trim ''cat''))"
  by code_simp

subsection \<open>What the handlers leave unchanged\<close>

lemma handleSubmit_rejects:
  "\<not> accepts s \<Longrightarrow> handleSubmit s st env = (s, st, [])"
  by (auto simp: handleSubmit_def accepts_def split: option.splits)

lemma handleSubmit_accepts:
  assumes "accepts s"
  shows "handleSubmit s st env =
     (if wordCount s + 1 \<ge> TOTAL_WORDS then
        (case childData s of
           None \<Rightarrow> (scored s env, st, [])
         | Some cd \<Rightarrow>
            (case phase s of
               Initial \<Rightarrow> analyzeBranch (scored s env) st cd (results (scored s env)) env
             | Targeted \<Rightarrow> finishBranch s (scored s env) st cd (results (scored s env)) env
             | Analyzing \<Rightarrow> (scored s env, st, [])))
      else (scored s env, st, [ScheduleNextWord]))"
  using assms
  by (auto simp: handleSubmit_def accepts_def scored_def Let_def
      split: option.splits phase.splits)

lemma accepts_timer: "accepts s \<Longrightarrow> \<exists>t0. startTime s = Some t0 \<and> t0 \<noteq> 0"
  by (auto simp: accepts_def split: option.splits)

lemma typeText_keeps [simp]:
  "phase (typeText s tx) = phase s" "results (typeText s tx) = results s"
  "wordCount (typeText s tx) = wordCount s" "childData (typeText s tx) = childData s"
  "loading (typeText s tx) = loading s" "isGeneratingWord (typeText s tx) = isGeneratingWord s"
  "currentWord (typeText s tx) = currentWord s" "startTime (typeText s tx) = startTime s"
  "accuracy (typeText s tx) = accuracy s"
  by (simp_all add: typeText_def)

lemma liveFetch_keeps [simp]:
  "phase (fst (liveFetch cl cd s st env)) = phase s"
  "results (fst (liveFetch cl cd s st env)) = results s"
  "wordCount (fst (liveFetch cl cd s st env)) = wordCount s"
  "childData (fst (liveFetch cl cd s st env)) = childData s"
  "loading (fst (liveFetch cl cd s st env)) = loading s"
  "startTime (fst (liveFetch cl cd s st env)) = startTime s"
  "accuracy (fst (liveFetch cl cd s st env)) = accuracy s"
  "isGeneratingWord (fst (liveFetch cl cd s st env)) = False"
  by (simp_all add: liveFetch_def Let_def split: fetched.splits bool.splits)

lemma adjustDifficulty_keeps [simp]:
  "phase (adjustDifficulty a d s) = phase s" "results (adjustDifficulty a d s) = results s"
  "wordCount (adjustDifficulty a d s) = wordCount s"
  "childData (adjustDifficulty a d s) = childData s"
  "loading (adjustDifficulty a d s) = loading s"
  "startTime (adjustDifficulty a d s) = startTime s"
  "accuracy (adjustDifficulty a d s) = accuracy s"
  "currentWord (adjustDifficulty a d s) = currentWord s"
  "isGeneratingWord (adjustDifficulty a d s) = isGeneratingWord s"
  by (simp_all add: adjustDifficulty_def)

lemma generateNextWord_keeps [simp]:
  "phase (fst (generateNextWord cl s st env)) = phase s"
  "results (fst (generateNextWord cl s st env)) = results s"
  "wordCount (fst (generateNextWord cl s st env)) = wordCount s"
  "childData (fst (generateNextWord cl s st env)) = childData s"
  "loading (fst (generateNextWord cl s st env)) = loading s"
  by (simp_all add: generateNextWord_def Let_def split: option.splits)

lemma closeClick_keeps [simp]:
  "phase (fst (closeClick s)) = phase s" "results (fst (closeClick s)) = results s"
  "wordCount (fst (closeClick s)) = wordCount s" "accuracy (fst (closeClick s)) = accuracy s"
  "phase (fst (closeSettled s)) = phase s" "results (fst (closeSettled s)) = results s"
  "wordCount (fst (closeSettled s)) = wordCount s"
  "accuracy (fst (closeSettled s)) = accuracy s"
  by (simp_all add: closeClick_def closeSettled_def closeFinally_def Let_def
      split: option.splits)

lemma scored_keeps [simp]:
  "phase (scored s env) = phase s" "childData (scored s env) = childData s"
  "loading (scored s env) = loading s" "isGeneratingWord (scored s env) = isGeneratingWord s"
  "currentWord (scored s env) = currentWord s" "startTime (scored s env) = startTime s"
  by (simp_all add: scored_def Let_def split: option.splits)

lemma scored_results:
  "startTime s = Some t0 \<Longrightarrow>
   results (scored s env) = results s @ [mkEntry (currentWord s) (input s) t0 (endTime env)]"
  "startTime s = Some t0 \<Longrightarrow> wordCount (scored s env) = wordCount s + 1"
  by (simp_all add: scored_def Let_def)


lemma saveResults_keeps [simp]:
  "phase (fst (saveResults cl s rs resp)) = phase s"
  "results (fst (saveResults cl s rs resp)) = results s"
  "wordCount (fst (saveResults cl s rs resp)) = wordCount s"
  "accuracy (fst (saveResults cl s rs resp)) = accuracy s"
  by (simp_all add: saveResults_def Let_def split: option.splits fetched.splits)

lemma finishBranch_keeps [simp]:
  "phase (fst (finishBranch cl s st cd nr env)) = phase s"
  "results (fst (finishBranch cl s st cd nr env)) = results s"
  "wordCount (fst (finishBranch cl s st cd nr env)) = wordCount s"
  "accuracy (fst (finishBranch cl s st cd nr env)) = accuracy s"
  by (simp_all add: finishBranch_def Let_def)

lemma resumeAnalysis_accuracy [simp]:
  "accuracy (fst (resumeAnalysis s st cd nr env)) = accuracy s"
  by (simp add: resumeAnalysis_def Let_def split: fetched.splits)

lemma resumeAnalysis_phase:
  "phase (fst (resumeAnalysis s st cd nr env)) =
     (if analysisFailed env then phase s else Targeted)"
  by (simp add: resumeAnalysis_def analysisFailed_def Let_def split: fetched.splits)

lemma resumeAnalysis_failed:
  "analysisFailed env \<Longrightarrow> results (fst (resumeAnalysis s st cd nr env)) = results s"
  "analysisFailed env \<Longrightarrow> fst (snd (resumeAnalysis s st cd nr env)) = st"
  by (auto simp add: resumeAnalysis_def analysisFailed_def Let_def split: fetched.splits)

lemma resumeAnalysis_requests:
  "analyzedResults (snd (snd (resumeAnalysis s st cd nr env))) = [nr]"
  by (simp add: resumeAnalysis_def Let_def split: fetched.splits)

lemma resumeAnalysis_snapshot:
  "\<not> analysisFailed env \<Longrightarrow>
   firstSetResults (fst (snd (resumeAnalysis s st cd nr env))) (sessionId cd) = Some (results s)"
  by (auto simp add: resumeAnalysis_def analysisFailed_def Let_def split: fetched.splits)

lemma resumeAnalysis_error:
  "error (fst (resumeAnalysis s st cd nr env)) =
     (if analysisThrew env then Some analysisFailedMessage else error s)"
  by (simp add: resumeAnalysis_def analysisThrew_def Let_def split: fetched.splits)

lemma resumeAnalysis_no_timer:
  "ScheduleNextWord \<notin> set (snd (snd (resumeAnalysis s st cd nr env)))"
  by (simp add: resumeAnalysis_def Let_def split: fetched.splits)

lemma analyzeBranch_accuracy [simp]:
  "accuracy (fst (analyzeBranch s st cd nr env)) = accuracy s"
  by (simp add: analyzeBranch_def)

lemma analyzeBranch_phase:
  "phase (fst (analyzeBranch s st cd nr env)) =
     (if analysisFailed env then Analyzing else Targeted)"
  by (simp add: analyzeBranch_def resumeAnalysis_phase)

lemma analyzeBranch_failed:
  "analysisFailed env \<Longrightarrow> results (fst (analyzeBranch s st cd nr env)) = results s"
  "analysisFailed env \<Longrightarrow> fst (snd (analyzeBranch s st cd nr env)) = st"
  by (simp_all add: analyzeBranch_def resumeAnalysis_failed)

lemma analyzeBranch_requests:
  "analyzedResults (snd (snd (analyzeBranch s st cd nr env))) = [nr]"
  by (simp add: analyzeBranch_def resumeAnalysis_requests)

lemma analyzeBranch_snapshot:
  "\<not> analysisFailed env \<Longrightarrow>
   firstSetResults (fst (snd (analyzeBranch s st cd nr env))) (sessionId cd) = Some (results s)"
  by (simp add: analyzeBranch_def resumeAnalysis_snapshot)

lemma analyzeBranch_error:
  "error (fst (analyzeBranch s st cd nr env)) =
     (if analysisThrew env then Some analysisFailedMessage else error s)"
  by (simp add: analyzeBranch_def resumeAnalysis_error)

lemma analyzeBranch_no_timer:
  "ScheduleNextWord \<notin> set (snd (snd (analyzeBranch s st cd nr env)))"
  by (simp add: analyzeBranch_def resumeAnalysis_no_timer)



lemma handleSubmitWaiting_Nil: "handleSubmitWaiting s st env [] = handleSubmit s st env"
  by (simp add: handleSubmitWaiting_def handleSubmit_rejects handleSubmit_accepts run_def
      analyzeBranch_def split: option.splits phase.splits)



subsection \<open>Accuracy\<close>











subsection \<open>The merged results\<close>



subsection \<open>The queue of targeted words\<close>

text \<open>
  C10.  In the targeted phase, when the stored index is not below the length of the stored
  queue, \<^verbatim>\<open>generateNextWord\<close> asks the server for the next word, passing the phase
  \<^verbatim>\<open>targeted\<close>; it leaves the storage, the phase, the results and the count alone, does
  not navigate away, and shows the word of the answer (or a fallback word).
\<close>

theorem exhausted_queue_requests_word:
  assumes cd: "childData cl = Some cd" and ph: "phase cl = Targeted"
    and q: "targetedWords st (sessionId cd) = Some queue"
    and cur: "cursor = (case targetedWordIndex st (sessionId cd) of None \<Rightarrow> 0 | Some i \<Rightarrow> i)"
    and ex: "length queue \<le> cursor"
  shows "snd (snd (generateNextWord cl s st env)) = [PostGenerateNextWord cd (results cl) Targeted] \<and>
         fst (snd (generateNextWord cl s st env)) = st \<and>
         phase (fst (generateNextWord cl s st env)) = phase s \<and>
         results (fst (generateNextWord cl s st env)) = results s \<and>
         wordCount (fst (generateNextWord cl s st env)) = wordCount s \<and>
         \<not> isGeneratingWord (fst (generateNextWord cl s st env)) \<and>
         currentWord (fst (generateNextWord cl s st env)) =
           (case wordResp env of
              Response True True w e \<Rightarrow> w
            | _ \<Rightarrow> wordAt fallbackWords (nat \<lfloor>random env * real (length fallbackWords)\<rfloor>))"
  using assms
  by (simp add: generateNextWord_def liveFetch_def Let_def
      split: fetched.splits bool.splits)

theorem exhausted_queue_requests_word_witness:
  "childData demoTargetedSecond = Some demoChild \<and> phase demoTargetedSecond = Targeted \<and>
   targetedWords demoStorage (sessionId demoChild) = Some [''bun''] \<and>
   targetedWordIndex demoStorage (sessionId demoChild) = Some 1 \<and>
   snd (snd (generateNextWord demoTargetedSecond demoTargetedSecond demoStorage demoWord)) =
     [PostGenerateNextWord demoChild (results demoTargetedSecond) Targeted] \<and>
   currentWord (fst (generateNextWord demoTargetedSecond demoTargetedSecond demoStorage demoWord)) =
     ''dog'' \<and>
   phase (fst (generateNextWord demoTargetedSecond demoTargetedSecond demoStorage demoWord)) =
     Targeted"
proof -
  have h: "childData demoTargetedSecond = Some demoChild" "phase demoTargetedSecond = Targeted"
    "targetedWords demoStorage (sessionId demoChild) = Some [''bun'']"
    by code_simp+
  have i: "targetedWordIndex demoStorage (sessionId demoChild) = Some 1"
    by code_simp
  have cur: "(1::nat) =
      (case targetedWordIndex demoStorage (sessionId demoChild) of None \<Rightarrow> 0 | Some i \<Rightarrow> i)"
    by (simp add: i)
  have ex: "length [''bun''] \<le> (1::nat)"
    by simp
  have w: "wordResp demoWord = Response True True ''dog'' []"
    by (simp add: demoWord_def)
  from exhausted_queue_requests_word [OF h cur ex, of demoTargetedSecond demoWord] h i w
  show ?thesis
    by simp
qed

subsection \<open>The count of the first set\<close>

lemma handleSubmit_countsFirstSet:
  assumes inv: "countsFirstSet s" and cd: "childData s \<noteq> None"
  shows "countsFirstSet (fst (handleSubmit s st env))"
proof (cases "accepts s")
  case False
  with inv show ?thesis
    by (simp add: handleSubmit_rejects)
next
  case True
  then obtain t0 where t0: "startTime s = Some t0"
    using accepts_timer by blast
  from cd obtain c where c: "childData s = Some c"
    by blast
  show ?thesis
  proof (cases "phase s")
    case Initial
    with inv have cnt: "wordCount s = length (results s)" "wordCount s < TOTAL_WORDS"
      by (simp_all add: countsFirstSet_def)
    show ?thesis
      using True Initial c cnt t0
      by (simp add: handleSubmit_accepts countsFirstSet_def analyzeBranch_phase scored_results)
  next
    case Analyzing
    with True c show ?thesis
      by (simp add: handleSubmit_accepts countsFirstSet_def)
  next
    case Targeted
    with True c show ?thesis
      by (simp add: handleSubmit_accepts countsFirstSet_def)
  qed
qed

lemma step_countsFirstSet:
  assumes "countsFirstSet (fst c)"
  shows "countsFirstSet (fst (step c ev))"
proof (cases c)
  case (Pair s st)
  with assms have inv: "countsFirstSet s"
    by simp
  show ?thesis
  proof (cases ev)
    case (Submitted env)
    with Pair inv handleSubmit_countsFirstSet [of s st env] show ?thesis
      by (simp add: formSubmit_def)
  qed (use Pair inv in \<open>auto simp: countsFirstSet_def\<close>)
qed

lemma run_countsFirstSet:
  "countsFirstSet (fst c) \<Longrightarrow> countsFirstSet (fst (run c evs))"
  unfolding run_def
proof (induction evs arbitrary: c)
  case Nil
  then show ?case
    by simp
next
  case (Cons ev evs)
  from Cons.IH [OF step_countsFirstSet [OF Cons.prems]] show ?case
    by simp
qed

subsection \<open>The phase of analysis\<close>

lemma handleSubmit_analyzing:
  assumes "phase s = Analyzing"
  shows "phase (fst (handleSubmit s st env)) = Analyzing \<and>
         prefix (results s) (results (fst (handleSubmit s st env)))"
proof (cases "accepts s")
  case False
  with assms show ?thesis
    by (simp add: handleSubmit_rejects)
next
  case True
  then obtain t0 where "startTime s = Some t0"
    using accepts_timer by blast
  with True assms show ?thesis
    by (simp add: handleSubmit_accepts scored_results split: option.splits)
qed

lemma step_analyzing:
  assumes "phase (fst c) = Analyzing"
  shows "phase (fst (step c ev)) = Analyzing \<and>
         prefix (results (fst c)) (results (fst (step c ev)))"
proof (cases c)
  case (Pair s st)
  with assms have ph: "phase s = Analyzing"
    by simp
  show ?thesis
  proof (cases ev)
    case (Submitted env)
    with Pair ph handleSubmit_analyzing [of s st env] show ?thesis
      by (simp add: formSubmit_def)
  qed (use Pair ph in simp_all)
qed

lemma run_analyzing:
  "phase (fst c) = Analyzing \<Longrightarrow>
   phase (fst (run c evs)) = Analyzing \<and> prefix (results (fst c)) (results (fst (run c evs)))"
  unfolding run_def
proof (induction evs arbitrary: c)
  case Nil
  then show ?case
    by simp
next
  case (Cons ev evs)
  from step_analyzing [OF Cons.prems, of ev]
  have a: "phase (fst (step c ev)) = Analyzing"
    and b: "prefix (results (fst c)) (results (fst (step c ev)))"
    by simp_all
  from Cons.IH [OF a] b show ?case
    by (auto intro: prefix_order.trans)
qed

subsection \<open>The end of the first set\<close>

text \<open>
  The part of C2 that holds, with any events during the waits.  Take any page on which
  \<^verbatim>\<open>wordCount\<close> counts the results of the first set, let the user and the timers act in
  any way, and let an attempt then be accepted in the initial phase.  The attempt leaves
  the initial phase exactly when it is the one that makes the number of results 5; the
  list sent for analysis is then the list of these 5 results; and the list stored as the
  first set, when the targeted phase begins, starts with them.
\<close>

lemma fifth_attempt_starts_analysis:
  assumes inv: "countsFirstSet s0"
    and s: "s = fst (run (s0, st0) evs)" and st: "st = snd (run (s0, st0) evs)"
    and ph: "phase s = Initial" and acc: "accepts s"
    and t0: "startTime s = Some t0" and cd: "childData s = Some cd"
    and nr: "newResults = results s @ [mkEntry (currentWord s) (input s) t0 (endTime env)]"
    and r: "r = handleSubmitWaiting s st env late"
  shows "(phase (fst r) \<noteq> Initial) = (length newResults = TOTAL_WORDS) \<and>
         (phase (fst r) \<noteq> Initial \<longrightarrow>
            analyzedResults (snd (snd r)) = [newResults] \<and>
            (phase (fst r) = Targeted \<longrightarrow>
               (\<exists>stored. firstSetResults (fst (snd r)) (sessionId cd) = Some stored \<and>
                         prefix newResults stored)))"
proof -
  from run_countsFirstSet [of "(s0, st0)" evs] inv s have "countsFirstSet s"
    by simp
  with ph have cnt: "wordCount s = length (results s)" "wordCount s < TOTAL_WORDS"
    by (simp_all add: countsFirstSet_def)
  have res: "results (scored s env) = newResults"
    using t0 nr by (simp add: scored_results)
  show ?thesis
  proof (cases "wordCount s + 1 \<ge> TOTAL_WORDS")
    case True
    let ?w = "run ((scored s env)\<lparr>phase := Analyzing\<rparr>, st) late"
    have hs: "r = resumeAnalysis (fst ?w) (snd ?w) cd newResults env"
      using True acc ph cd res by (simp add: r handleSubmitWaiting_def)
    from run_analyzing [of "((scored s env)\<lparr>phase := Analyzing\<rparr>, st)" late] res
    have w: "phase (fst ?w) = Analyzing" "prefix newResults (results (fst ?w))"
      by simp_all
    have "length newResults = TOTAL_WORDS"
      using True cnt nr by simp
    then show ?thesis
      unfolding hs using w resumeAnalysis_snapshot [of env "fst ?w" "snd ?w" cd newResults]
      by (auto simp: resumeAnalysis_phase resumeAnalysis_requests)
  next
    case False
    then have "r = (scored s env, st, [ScheduleNextWord])"
      using acc by (simp add: r handleSubmitWaiting_def)
    moreover have "length newResults \<noteq> TOTAL_WORDS"
      using False cnt nr by simp
    ultimately show ?thesis
      using ph by simp
  qed
qed

text \<open>
  C2 does not hold of the code.  The attempt that completes the first set starts the
  analysis, and the list sent for analysis has 5 results.  But the handler then waits with
  the form still enabled, and the guard of \<^verbatim>\<open>handleSubmit\<close> does not look at the phase:
  a text submitted during the wait is recorded as a sixth result, and the first set is
  stored from the results of the moment the handler resumes.  So the stored first set has
  6 results (with no event during the wait it has 5).
\<close>

theorem stored_first_set_takes_late_attempt:
  "phase (fst (handleSubmitWaiting demoFifth emptyStorage demoOnline
       [Typed ''again'', Submitted demoOffline])) = Targeted \<and>
   map length (analyzedResults (snd (snd (handleSubmitWaiting demoFifth emptyStorage demoOnline
       [Typed ''again'', Submitted demoOffline])))) = [5] \<and>
   map_option length (firstSetResults (fst (snd (handleSubmitWaiting demoFifth emptyStorage
       demoOnline [Typed ''again'', Submitted demoOffline]))) (sessionId demoChild)) = Some 6 \<and>
   map_option length (firstSetResults (fst (snd (handleSubmitWaiting demoFifth emptyStorage
       demoOnline []))) (sessionId demoChild)) = Some 5"
  by code_simp

subsection \<open>A failed analysis\<close>

text \<open>
  C1.  Let the attempt that completes the first set be accepted, and let the analysis
  request or the targeted-words request fail (it throws, or its answer is not a success).
  Then the phase is \<^verbatim>\<open>analyzing\<close>, the results are the results of the first set with the
  new entry, nothing is written to the storage, and the error text is set when a request
  threw.  Whatever the user and the timers do afterwards, the phase stays
  \<^verbatim>\<open>analyzing\<close> (it never becomes \<^verbatim>\<open>targeted\<close>) and the results of the first set
  stay at the head of the results.
\<close>

theorem failed_analysis_blocks_second_set:
  assumes acc: "accepts s" and t0: "startTime s = Some t0"
    and ph: "phase s = Initial" and cd: "childData s = Some cd"
    and full: "TOTAL_WORDS \<le> wordCount s + 1"
    and failed: "analysisFailed env"
    and s': "s' = fst (handleSubmit s st env)" and st': "st' = fst (snd (handleSubmit s st env))"
  shows "phase s' = Analyzing \<and>
         results s' = results s @ [mkEntry (currentWord s) (input s) t0 (endTime env)] \<and>
         st' = st \<and>
         (analysisThrew env \<longrightarrow> error s' = Some analysisFailedMessage) \<and>
         (\<forall>evs. phase (fst (run (s', st') evs)) = Analyzing \<and>
                prefix (results s') (results (fst (run (s', st') evs))))"
proof -
  have hs: "handleSubmit s st env =
      analyzeBranch (scored s env) st cd (results (scored s env)) env"
    using acc ph cd full by (simp add: handleSubmit_accepts)
  have p: "phase s' = Analyzing"
    using failed by (simp add: s' hs analyzeBranch_phase)
  have r: "results s' = results s @ [mkEntry (currentWord s) (input s) t0 (endTime env)]"
    using failed t0 by (simp add: s' hs analyzeBranch_failed scored_results)
  have q: "st' = st"
    using failed by (simp add: st' hs analyzeBranch_failed)
  have e: "analysisThrew env \<longrightarrow> error s' = Some analysisFailedMessage"
    by (simp add: s' hs analyzeBranch_error)
  from p have "\<forall>evs. phase (fst (run (s', st') evs)) = Analyzing \<and>
                prefix (results s') (results (fst (run (s', st') evs)))"
    using run_analyzing [of "(s', st')"] by simp
  with p r q e show ?thesis
    by blast
qed

theorem failed_analysis_blocks_second_set_witness:
  "accepts demoFifth \<and> startTime demoFifth = Some 1000 \<and> phase demoFifth = Initial \<and>
   childData demoFifth = Some demoChild \<and> TOTAL_WORDS \<le> wordCount demoFifth + 1 \<and>
   analysisFailed demoOffline \<and> analysisThrew demoOffline \<and>
   phase (fst (handleSubmit demoFifth emptyStorage demoOffline)) = Analyzing \<and>
   results (fst (handleSubmit demoFifth emptyStorage demoOffline)) = demoFive \<and>
   error (fst (handleSubmit demoFifth emptyStorage demoOffline)) = Some analysisFailedMessage \<and>
   phase (fst (run (fst (handleSubmit demoFifth emptyStorage demoOffline), emptyStorage)
                 [Typed ''again'', Submitted demoOnline, NextWordTimer demoFifth demoWord])) =
     Analyzing \<and>
   prefix demoFive
     (results (fst (run (fst (handleSubmit demoFifth emptyStorage demoOffline), emptyStorage)
                 [Typed ''again'', Submitted demoOnline, NextWordTimer demoFifth demoWord])))"
proof -
  have h: "accepts demoFifth" "startTime demoFifth = Some 1000" "phase demoFifth = Initial"
    "childData demoFifth = Some demoChild" "TOTAL_WORDS \<le> wordCount demoFifth + 1"
    "analysisFailed demoOffline"
    by code_simp+
  have th: "analysisThrew demoOffline"
    by code_simp
  have r: "results demoFifth @
      [mkEntry (currentWord demoFifth) (input demoFifth) 1000 (endTime demoOffline)] = demoFive"
    by code_simp
  let ?s' = "fst (handleSubmit demoFifth emptyStorage demoOffline)"
  let ?evs = "[Typed ''again'', Submitted demoOnline, NextWordTimer demoFifth demoWord]"
  note blocked = failed_analysis_blocks_second_set [OF h refl refl, of emptyStorage]
  from blocked have p: "phase ?s' = Analyzing"
    by blast
  from blocked r have q: "results ?s' = demoFive"
    by simp
  from blocked th have e: "error ?s' = Some analysisFailedMessage"
    by blast
  from blocked have st: "fst (snd (handleSubmit demoFifth emptyStorage demoOffline)) = emptyStorage"
    by blast
  from blocked have "phase (fst (run (?s', fst (snd (handleSubmit demoFifth emptyStorage demoOffline))) ?evs)) = Analyzing \<and>
      prefix (results ?s')
        (results (fst (run (?s', fst (snd (handleSubmit demoFifth emptyStorage demoOffline))) ?evs)))"
    by blast
  then have later: "phase (fst (run (?s', emptyStorage) ?evs)) = Analyzing"
    "prefix demoFive (results (fst (run (?s', emptyStorage) ?evs)))"
    unfolding st q by simp_all
  from h th p q e later show ?thesis
    by (intro conjI)
qed

text \<open>
  The same holds when events arrive while the handler waits for the analysis: they act
  in the phase \<^verbatim>\<open>analyzing\<close>, and the failed handler writes neither phase nor results.
\<close>

lemma failed_analysis_with_late_events:
  assumes acc: "accepts s" and t0: "startTime s = Some t0"
    and ph: "phase s = Initial" and cd: "childData s = Some cd"
    and full: "TOTAL_WORDS \<le> wordCount s + 1"
    and failed: "analysisFailed env"
  shows "phase (fst (handleSubmitWaiting s st env late)) = Analyzing \<and>
         prefix (results s @ [mkEntry (currentWord s) (input s) t0 (endTime env)])
           (results (fst (handleSubmitWaiting s st env late))) \<and>
         firstSetResults (fst (snd (handleSubmitWaiting s st env late))) =
           firstSetResults (snd (run ((scored s env)\<lparr>phase := Analyzing\<rparr>, st) late))"
proof -
  let ?w = "run ((scored s env)\<lparr>phase := Analyzing\<rparr>, st) late"
  have hs: "handleSubmitWaiting s st env late =
      resumeAnalysis (fst ?w) (snd ?w) cd (results (scored s env)) env"
    using acc ph cd full by (simp add: handleSubmitWaiting_def)
  from run_analyzing [of "((scored s env)\<lparr>phase := Analyzing\<rparr>, st)" late] t0
  have "phase (fst ?w) = Analyzing"
    and "prefix (results s @ [mkEntry (currentWord s) (input s) t0 (endTime env)])
          (results (fst ?w))"
    by (simp_all add: scored_results)
  with failed show ?thesis
    by (simp add: hs resumeAnalysis_phase resumeAnalysis_failed)
qed

subsection \<open>Fallback words\<close>

lemma fallback_index:
  assumes "0 \<le> r" and "r < 1"
  shows "wordAt fallbackWords (nat \<lfloor>r * real (length fallbackWords)\<rfloor>) \<in> set fallbackWords"
proof -
  have len: "length fallbackWords = 5"
    by (simp add: fallbackWords_def)
  have "r * 5 < 5"
    using assms by simp
  then have "\<lfloor>r * 5\<rfloor> < 5"
    by linarith
  then have "nat \<lfloor>r * 5\<rfloor> < 5"
    by linarith
  then show ?thesis
    unfolding wordAt_def len by (simp add: len)
qed

lemma fallbackWords_nonempty: "w \<in> set fallbackWords \<Longrightarrow> w \<noteq> []"
  by (auto simp: fallbackWords_def)

lemma liveFetch_failed:
  assumes "wordFetchFailed env" and "0 \<le> random env" and "random env < 1"
  shows "currentWord (fst (liveFetch cl cd s st env)) \<in> set fallbackWords"
  using assms fallback_index [of "random env"]
  by (auto simp: liveFetch_def wordFetchFailed_def Let_def split: fetched.splits bool.splits)

lemma generateNextWord_initial_failed:
  assumes "childData cl \<noteq> None" and "phase cl = Initial"
    and "wordFetchFailed env" and "0 \<le> random env" and "random env < 1"
  shows "currentWord (fst (generateNextWord cl s st env)) \<in> set fallbackWords \<and>
         \<not> isGeneratingWord (fst (generateNextWord cl s st env)) \<and>
         startTime (fst (generateNextWord cl s st env)) = startTime s"
  using assms liveFetch_failed
  by (auto simp: generateNextWord_def Let_def split: option.splits)

lemma ready_typeText:
  assumes "ready k s" and "trim tx \<noteq> []"
  shows "typeText s tx = s\<lparr>input := tx\<rparr>" and "accepts (typeText s tx)"
proof -
  from assms(1) show ty: "typeText s tx = s\<lparr>input := tx\<rparr>"
    by (auto simp: ready_def typeText_def)
  from assms show "accepts (typeText s tx)"
    by (simp add: ty accepts_def ready_def)
qed

lemma turn_failing:
  assumes rdy: "ready k s" and more: "k + 1 < TOTAL_WORDS" and ft: "failingTurn t"
  shows "ready (k + 1) (fst (turn (s, st) t)) \<and>
         currentWord (fst (turn (s, st) t)) \<in> set fallbackWords"
proof -
  obtain tx senv wenv where t: "t = (tx, senv, wenv)"
    by (cases t) auto
  let ?s0 = "typeText s tx"
  from ft t have tx: "trim tx \<noteq> []"
    by (simp add: failingTurn_def)
  note ty = ready_typeText [OF rdy tx]
  from rdy obtain t0 where t0: "startTime ?s0 = Some t0" "t0 \<noteq> 0"
    by (auto simp: ready_def split: option.splits)
  have fs: "formSubmit ?s0 st senv = (scored ?s0 senv, st, [ScheduleNextWord])"
    using rdy tx ty(2) more
    by (simp add: formSubmit_def handleSubmit_accepts ready_def ty(1))
  let ?r = "generateNextWord ?s0 (scored ?s0 senv) st wenv"
  have tu: "turn (s, st) t = (fst ?r, fst (snd ?r))"
    by (simp add: t fs Let_def)
  have g: "currentWord (fst ?r) \<in> set fallbackWords \<and> \<not> isGeneratingWord (fst ?r) \<and>
           startTime (fst ?r) = startTime (scored ?s0 senv)"
    using rdy ft t
    by (intro generateNextWord_initial_failed) (simp_all add: ready_def failingTurn_def)
  with rdy t0 show ?thesis
    by (auto simp: tu ready_def scored_results fallbackWords_nonempty)
qed

lemma turn_last:
  assumes rdy: "ready k s" and last: "TOTAL_WORDS \<le> k + 1" and ft: "failingTurn t"
  shows "phase (fst (turn (s, st) t)) \<noteq> Initial"
proof -
  obtain tx senv wenv where t: "t = (tx, senv, wenv)"
    by (cases t) auto
  let ?s0 = "typeText s tx"
  from ft t have tx: "trim tx \<noteq> []"
    by (simp add: failingTurn_def)
  note ty = ready_typeText [OF rdy tx]
  from rdy obtain cd where cd: "childData s = Some cd"
    by (auto simp: ready_def)
  let ?b = "analyzeBranch (scored ?s0 senv) st cd (results (scored ?s0 senv)) senv"
  have fs: "formSubmit ?s0 st senv = ?b"
    using rdy tx ty(2) last cd
    by (simp add: formSubmit_def handleSubmit_accepts ready_def ty(1))
  have "turn (s, st) t = (fst ?b, fst (snd ?b))"
    using analyzeBranch_no_timer [of "scored ?s0 senv" st cd "results (scored ?s0 senv)" senv]
    by (simp add: t fs Let_def)
  then show ?thesis
    by (simp add: analyzeBranch_phase)
qed

lemma turns_snoc: "turns c (ts @ [t]) = turn (turns c ts) t"
  by (simp add: turns_def)

lemma turns_failing:
  assumes "ready k s" and "list_all failingTurn ts" and "k + length ts < TOTAL_WORDS"
  shows "ready (k + length ts) (fst (turns (s, st) ts)) \<and>
         (ts \<noteq> [] \<longrightarrow> currentWord (fst (turns (s, st) ts)) \<in> set fallbackWords)"
  using assms
proof (induction ts rule: rev_induct)
  case Nil
  then show ?case
    by (simp add: turns_def)
next
  case (snoc t ts)
  then have ih: "ready (k + length ts) (fst (turns (s, st) ts))"
    by simp
  obtain s1 st1 where c1: "turns (s, st) ts = (s1, st1)"
    by (cases "turns (s, st) ts") auto
  from snoc.prems have "failingTurn t" "k + length ts + 1 < TOTAL_WORDS"
    by simp_all
  from turn_failing [OF _ this(2,1), of s1 st1] ih c1 show ?case
    by (simp add: turns_snoc)
qed

text \<open>
  The part of C8 that holds: the requests for a next word.  Start from a page of the first
  set that shows a word with the timer running, and let every request for a next word
  fail while the user goes on typing.  After each turn
  short of the fifth word the page shows a word of the fallback pool and is ready for the
  next attempt, its count one higher; the turn that brings the count to 5 leaves the
  initial phase.
\<close>

theorem fallback_words_keep_the_set_going:
  assumes rdy: "ready k s" and fails: "list_all failingTurn ts"
    and len: "k + length ts \<le> TOTAL_WORDS"
  shows "(ts \<noteq> [] \<and> k + length ts < TOTAL_WORDS \<longrightarrow>
            currentWord (fst (turns (s, st) ts)) \<in> set fallbackWords \<and>
            ready (k + length ts) (fst (turns (s, st) ts))) \<and>
         (ts \<noteq> [] \<and> k + length ts = TOTAL_WORDS \<longrightarrow>
            phase (fst (turns (s, st) ts)) \<noteq> Initial)"
proof (intro conjI impI)
  assume "ts \<noteq> [] \<and> k + length ts < TOTAL_WORDS"
  with turns_failing [OF rdy fails, of st]
  show "currentWord (fst (turns (s, st) ts)) \<in> set fallbackWords"
    and "ready (k + length ts) (fst (turns (s, st) ts))"
    by simp_all
next
  assume a: "ts \<noteq> [] \<and> k + length ts = TOTAL_WORDS"
  then obtain ts' t where ts: "ts = ts' @ [t]"
    by (cases ts rule: rev_cases) auto
  with fails have f': "list_all failingTurn ts'" and ft: "failingTurn t"
    by simp_all
  from a ts have l': "k + length ts' < TOTAL_WORDS"
    and last: "TOTAL_WORDS \<le> (k + length ts') + 1"
    by simp_all
  obtain s1 st1 where c1: "turns (s, st) ts' = (s1, st1)"
    by (cases "turns (s, st) ts'") auto
  from turns_failing [OF rdy f' l', of st] c1 have "ready (k + length ts') s1"
    by simp
  from turn_last [OF this last ft, of st1] show "phase (fst (turns (s, st) ts)) \<noteq> Initial"
    by (simp add: ts turns_snoc c1)
qed

theorem fallback_words_keep_the_set_going_witness:
  "ready 3 demoFourth \<and>
   list_all failingTurn [(''tree'', demoOffline, demoNoWord), (''dig'', demoOnline, demoNoWord)] \<and>
   currentWord (fst (turns (demoFourth, emptyStorage) [(''tree'', demoOffline, demoNoWord)]))
     \<in> set fallbackWords \<and>
   ready 4 (fst (turns (demoFourth, emptyStorage) [(''tree'', demoOffline, demoNoWord)])) \<and>
   phase (fst (turns (demoFourth, emptyStorage)
            [(''tree'', demoOffline, demoNoWord), (''dig'', demoOnline, demoNoWord)])) \<noteq> Initial"
proof -
  have rdy: "ready 3 demoFourth"
    by code_simp
  have ft: "failingTurn (''tree'', demoOffline, demoNoWord)"
    "failingTurn (''dig'', demoOnline, demoNoWord)"
    by code_simp+
  then have l1: "list_all failingTurn [(''tree'', demoOffline, demoNoWord)]"
    and l2: "list_all failingTurn
        [(''tree'', demoOffline, demoNoWord), (''dig'', demoOnline, demoNoWord)]"
    by simp_all
  have n1: "3 + length [(''tree'', demoOffline, demoNoWord)] \<le> TOTAL_WORDS"
    and n2: "3 + length [(''tree'', demoOffline, demoNoWord), (''dig'', demoOnline, demoNoWord)]
        \<le> TOTAL_WORDS"
    by (simp_all add: TOTAL_WORDS_def)
  from fallback_words_keep_the_set_going [OF rdy l1 n1, of emptyStorage]
  have one: "currentWord (fst (turns (demoFourth, emptyStorage) [(''tree'', demoOffline, demoNoWord)]))
       \<in> set fallbackWords"
    "ready 4 (fst (turns (demoFourth, emptyStorage) [(''tree'', demoOffline, demoNoWord)]))"
    by (simp_all add: TOTAL_WORDS_def)
  from fallback_words_keep_the_set_going [OF rdy l2 n2, of emptyStorage]
  have two: "phase (fst (turns (demoFourth, emptyStorage)
            [(''tree'', demoOffline, demoNoWord), (''dig'', demoOnline, demoNoWord)])) \<noteq> Initial"
    by (simp add: TOTAL_WORDS_def)
  from rdy l2 one two show ?thesis
    by (intro conjI)
qed

lemma failed_initial_word_shows_no_word:
  assumes "\<not> (\<exists>w e. resp = Response True True w e)"
  shows "currentWord (fst (generateInitialWord data s resp)) = currentWord s \<and>
         error (fst (generateInitialWord data s resp)) = Some (fetchFailureMessage resp)"
  using assms
  by (auto simp: generateInitialWord_def Let_def split: fetched.splits bool.splits)

text \<open>
  C8 does not hold of the code.  A failed request for a next word is answered with a
  fallback word (above), but a failed request for the first word is not:
  \<^verbatim>\<open>generateInitialWord\<close> sets the error text and shows no word.  So after the mount with
  the server unreachable the page shows no word, the submission of a text is ignored
  (even on a page whose timer runs), and no later request is made: the session is
  blocked.  The same failure of a next-word request shows the word \<open>''dog''\<close> of the
  pool.
\<close>

theorem failed_first_word_has_no_fallback:
  "currentWord (fst (mount (Some (demoChild, ''typing'')) initialState (Threw ''offline''))) = [] \<and>
   currentWord (fst (mount (Some (demoChild, ''typing'')) initialState (Threw ''offline'')))
     \<notin> set fallbackWords \<and>
   error (fst (mount (Some (demoChild, ''typing'')) initialState (Threw ''offline''))) =
     Some ''offline'' \<and>
   snd (mount (Some (demoChild, ''typing'')) initialState (Threw ''offline'')) =
     [PostGenerateInitialWord demoChild] \<and>
   results (fst (formSubmit
       (typeText ((fst (mount (Some (demoChild, ''typing'')) initialState (Threw ''offline'')))
          \<lparr>startTime := Some 1000\<rparr>) ''cat'') emptyStorage demoOffline)) = [] \<and>
   snd (snd (formSubmit
       (typeText ((fst (mount (Some (demoChild, ''typing'')) initialState (Threw ''offline'')))
          \<lparr>startTime := Some 1000\<rparr>) ''cat'') emptyStorage demoOffline)) = [] \<and>
   currentWord (fst (generateNextWord demoFirst demoFirst emptyStorage demoNoWord)) = ''dog''"
  by code_simp

subsection \<open>The timer of a word\<close>

lemma fetched_word_keeps_timer:
  "startTime (fst (liveFetch cl cd s st env)) = startTime s"
  by simp

lemma initial_word_keeps_timer:
  "startTime (fst (generateInitialWord data s resp)) = startTime s"
  by (simp add: generateInitialWord_def Let_def split: fetched.splits bool.splits)

text \<open>
  C7 does not hold of the code.  \<^verbatim>\<open>setStartTime\<close> is called only where a word of the
  targeted queue is shown; the initial word, a word fetched from the server and a
  fallback word leave \<^verbatim>\<open>startTime\<close> as it was.  So after the mount the first word is
  shown with no timer, and the submission of an answer is ignored: no result, no request.
  And in the second set, with the queue used up, the time recorded for a fetched word
  (7000) is counted from the display of the word before it, not from its own display.
\<close>

theorem timer_not_started_for_fetched_words:
  "currentWord (fst (mount (Some (demoChild, ''typing'')) initialState
       (Response True True ''cat'' []))) = ''cat'' \<and>
   startTime (fst (mount (Some (demoChild, ''typing'')) initialState
       (Response True True ''cat'' []))) = None \<and>
   results (fst (handleSubmit
       (typeText (fst (mount (Some (demoChild, ''typing'')) initialState
          (Response True True ''cat'' []))) ''cat'') emptyStorage demoOffline)) = [] \<and>
   snd (snd (handleSubmit
       (typeText (fst (mount (Some (demoChild, ''typing'')) initialState
          (Response True True ''cat'' []))) ''cat'') emptyStorage demoOffline)) = [] \<and>
   map e_timeSpent (results (fst (turns (demoTargetedSecond, demoStorage)
       [(''bug'', demoOffline, demoWord), (''dog'', demoOffline\<lparr>endTime := 8000\<rparr>, demoWord)]))) =
     [1000, 1500, 7000]"
  by code_simp

subsection \<open>The close button\<close>

lemma closeClick_while_saving: "savingOnClose s \<Longrightarrow> closeClick s = (s, [])"
  by (simp add: closeClick_def)

lemma closeClick_sets_flag:
  "\<not> savingOnClose s \<Longrightarrow> childData s = Some cd \<Longrightarrow> results s \<noteq> [] \<Longrightarrow>
   savingOnClose (fst (closeClick s)) \<and> snd (closeClick s) = [PostSaveOnClose cd (results s)]"
  by (simp add: closeClick_def Let_def)

text \<open>
  C9 does not hold of the code.  The close button sends the current \<^verbatim>\<open>results\<close> only.  In
  the second set these are the attempts of the second set: the first set, which is in the
  session storage, is not sent; and when the second set has no attempt yet, nothing is
  saved at all.  (A second click while the request is pending is ignored, as the claim
  says: \<open>closeClick_while_saving\<close>.)
\<close>

theorem close_saves_current_set_only:
  "firstSetResults demoStorage (sessionId demoChild) = Some demoFive \<and>
   snd (closeClick demoTargetedSecond) =
     [PostSaveOnClose demoChild [mkEntry ''bun'' ''bon'' 1000 2000]] \<and>
   snd (closeClick (demoTargetedSecond\<lparr>results := [], wordCount := 0\<rparr>)) =
     [NavigateTo ''/landing'']"
  by code_simp

end
